theory Spec2Isabelle
  imports Main "HOL-Library.Word"
begin

section \<open>Data model of the JDWP session layer (jdwp\_main.cc)\<close>

type_synonym u32 = "32 word"
type_synonym i64 = "64 word"
type_synonym ObjectId = "64 word"
type_synonym RefTypeId = "64 word"
type_synonym MethodId = "32 word"

datatype JdwpTransportType = kJdwpTransportUnknown | kJdwpTransportSocket | kJdwpTransportAndroidAdb

text \<open>The options structure; its field \<open>transport\<close> is named \<open>options_transport\<close> here,
  because the session has a member \<open>transport\<close> of its own.\<close>

record JdwpOptions =
  options_transport :: JdwpTransportType
  server :: bool
  suspend :: bool

datatype JdwpTransport = SocketTransport | AndroidAdbTransport

text \<open>The members of \<open>JdwpState\<close> that hold data. The constant \<open>options_\<close> is passed
  beside the session, the mutexes and condition variables appear as events of a trace, and
  the thread handles \<open>thread_\<close> and \<open>pthread_\<close> are left out. A name cannot end in an
  underscore here, so \<open>debug_thread_started_\<close> is \<open>debug_thread_started\<close>, and likewise
  for the mutexes and condition variables.\<close>

record JdwpState =
  debug_thread_started :: bool
  debugThreadId :: ObjectId
  run :: bool
  transport :: "JdwpTransport option"
  netState :: "nat option"
  lastActivityWhen :: i64
  requestSerial :: u32
  eventSerial :: u32
  numEvents :: nat
  eventList :: "nat list"
  eventThreadId :: ObjectId
  ddmActive :: bool

text \<open>The constructor \<open>JdwpState::JdwpState\<close>.\<close>

definition JdwpState_new :: JdwpState where
  "JdwpState_new =
     \<lparr> debug_thread_started = False,
       debugThreadId = 0,
       run = False,
       transport = None,
       netState = None,
       lastActivityWhen = 0,
       requestSerial = 0x10000000,
       eventSerial = 0x20000000,
       numEvents = 0,
       eventList = [],
       eventThreadId = 0,
       ddmActive = False \<rparr>"

section \<open>Serial counters\<close>

text \<open>\<open>return requestSerial++\<close> and \<open>return eventSerial++\<close> on \<open>uint32_t\<close>: the value
  before the increment is returned, and the increment wraps.\<close>

definition NextRequestSerial :: "JdwpState \<Rightarrow> u32 \<times> JdwpState" where
  "NextRequestSerial s = (requestSerial s, s\<lparr>requestSerial := requestSerial s + 1\<rparr>)"

definition NextEventSerial :: "JdwpState \<Rightarrow> u32 \<times> JdwpState" where
  "NextEventSerial s = (eventSerial s, s\<lparr>eventSerial := eventSerial s + 1\<rparr>)"

text \<open>A sequence of calls to the two counters, made one after the other, with the value
  each call returned.\<close>

datatype serial_call = CallRequest | CallEvent

fun serial_calls :: "serial_call list \<Rightarrow> JdwpState \<Rightarrow> (serial_call \<times> u32) list \<times> JdwpState" where
  "serial_calls [] s = ([], s)"
| "serial_calls (CallRequest # cs) s =
     (case NextRequestSerial s of (v, s1) \<Rightarrow>
        (case serial_calls cs s1 of (vs, s2) \<Rightarrow> ((CallRequest, v) # vs, s2)))"
| "serial_calls (CallEvent # cs) s =
     (case NextEventSerial s of (v, s1) \<Rightarrow>
        (case serial_calls cs s1 of (vs, s2) \<Rightarrow> ((CallEvent, v) # vs, s2)))"

definition returned :: "serial_call \<Rightarrow> serial_call list \<Rightarrow> JdwpState \<Rightarrow> u32 list" where
  "returned k cs s = map snd (filter (\<lambda>r. fst r = k) (fst (serial_calls cs s)))"

text \<open>How many calls of a sequence go to one counter.\<close>

definition calls_to :: "serial_call \<Rightarrow> serial_call list \<Rightarrow> nat" where
  "calls_to k cs = length (filter (\<lambda>c. c = k) cs)"

section \<open>Events and fatal errors\<close>

text \<open>What the session layer does beyond computing values is recorded as a list of
  events, in program order: taking and releasing its mutexes, broadcasting on its
  condition variables, and every call into the transport, the debugger (\<open>Dbg\<close>), the
  runtime, the thread library and the kernel. A call whose result the code reads carries
  that result; \<open>accept\<close> and \<open>establish\<close> also carry the session as it is when the call
  begins.\<close>

datatype mutex = socket_lock | thread_start_lock | attach_lock

datatype cond = thread_start_cond | attach_cond

type_synonym byte = "8 word"

record iovec =
  iov_base :: "byte list"
  iov_len :: nat

datatype event =
    Lock mutex
  | Unlock mutex
  | Broadcast cond
  | Wait cond
  | SysWrite int "byte list" nat int
  | SysWritev int "iovec list" int int
  | TransportStartup bool
  | TransportAccept JdwpState bool
  | TransportEstablish JdwpState bool
  | TransportProcessIncoming bool
  | TransportAwaitingHandshake bool
  | TransportClose
  | TransportShutdown
  | TransportFree
  | TransportIsConnected bool
  | PthreadCreate int
  | PthreadJoin int
  | AttachCurrentThread
  | DetachCurrentThread
  | DbgThreadWaiting
  | DbgThreadRunning
  | DbgConnected
  | DbgDisconnected
  | DbgIsDisposed bool
  | DbgGetThreadSelfId ObjectId
  | DbgDdmDisconnected
  | DbgUndoDebuggerSuspensions
  | ThreadStateIsVmWait bool
  | PostVMDeathCalled
  | UnregisterAllCalled
  | LogError string
  | LogWarning string
  | LogInfo string

text \<open>\<open>LOG(FATAL)\<close> and a failed \<open>CHECK\<close> end the process.\<close>

datatype fatal = LOG_FATAL string | CHECK_failed string

section \<open>Packet sink\<close>

text \<open>\<open>ExpandBuf\<close> is declared outside this file; \<open>expandBufGetBuffer\<close> gives its
  storage and \<open>expandBufGetLength\<close> the number of bytes in use.\<close>

record ExpandBuf =
  storage :: "byte list"
  curLen :: nat

definition expandBufGetBuffer :: "ExpandBuf \<Rightarrow> byte list" where
  "expandBufGetBuffer pBuf = storage pBuf"

definition expandBufGetLength :: "ExpandBuf \<Rightarrow> nat" where
  "expandBufGetLength pBuf = curLen pBuf"

record JdwpNetStateBase =
  clientSock :: int

definition JdwpNetStateBase_new :: JdwpNetStateBase where
  "JdwpNetStateBase_new = \<lparr> clientSock = -1 \<rparr>"

text \<open>The kernel is a parameter: \<open>sys_write fd buf count\<close> is what \<open>write(2)\<close> returns
  (\<open>-1\<close> for an error, otherwise the number of bytes written, which may be short of
  \<open>count\<close>), and \<open>sys_writev fd iov iov_count\<close> is what \<open>writev(2)\<close> returns.\<close>

definition writePacket ::
  "(int \<Rightarrow> byte list \<Rightarrow> nat \<Rightarrow> int) \<Rightarrow> JdwpNetStateBase \<Rightarrow> ExpandBuf \<Rightarrow> event list \<times> int" where
  "writePacket sys_write ns pReply =
     (let r = sys_write (clientSock ns) (expandBufGetBuffer pReply) (expandBufGetLength pReply)
      in ([Lock socket_lock,
           SysWrite (clientSock ns) (expandBufGetBuffer pReply) (expandBufGetLength pReply) r,
           Unlock socket_lock], r))"

definition writeBufferedPacket ::
  "(int \<Rightarrow> iovec list \<Rightarrow> int \<Rightarrow> int) \<Rightarrow> JdwpNetStateBase \<Rightarrow> iovec list \<Rightarrow> int \<Rightarrow> event list \<times> int" where
  "writeBufferedPacket sys_writev ns iov iov_count =
     (let r = sys_writev (clientSock ns) iov iov_count
      in ([Lock socket_lock, SysWritev (clientSock ns) iov iov_count r, Unlock socket_lock], r))"

fun is_write :: "event \<Rightarrow> bool" where
  "is_write (SysWrite fd buf n r) = True"
| "is_write (SysWritev fd iov n r) = True"
| "is_write e = False"

section \<open>Time since the last debugger activity\<close>

text \<open>\<open>LastDebuggerActivity\<close>: \<open>connected\<close> is what \<open>Dbg::IsDebuggerConnected()\<close> answers and
  \<open>now\<close> what \<open>MilliTime()\<close> answers; both are \<open>int64_t\<close> values, compared as signed
  numbers, and the subtraction is the machine's.\<close>

definition LastDebuggerActivity :: "bool \<Rightarrow> i64 \<Rightarrow> JdwpState \<Rightarrow> fatal + i64" where
  "LastDebuggerActivity connected now s =
     (if \<not> connected then Inr (- 1)
      else let last = lastActivityWhen s in
        if last = 0 then Inr 0
        else if \<not> (sint now \<ge> sint last) then Inl (CHECK_failed ''now >= last'')
        else Inr (now - last))"

section \<open>Locations\<close>

datatype JdwpTypeTag = TT_CLASS | TT_INTERFACE | TT_ARRAY

text \<open>\<open>JdwpLocation\<close> is declared outside this file; these are the four members the
  comparison and the printing operator read.\<close>

record JdwpLocation =
  typeTag :: JdwpTypeTag
  classId :: RefTypeId
  methodId :: MethodId
  idx :: "64 word"

definition JdwpLocation_eq :: "JdwpLocation \<Rightarrow> JdwpLocation \<Rightarrow> bool" where
  "JdwpLocation_eq lhs rhs \<longleftrightarrow>
     idx lhs = idx rhs \<and> methodId lhs = methodId rhs \<and>
     classId lhs = classId rhs \<and> typeTag lhs = typeTag rhs"

definition JdwpLocation_ne :: "JdwpLocation \<Rightarrow> JdwpLocation \<Rightarrow> bool" where
  "JdwpLocation_ne lhs rhs \<longleftrightarrow> \<not> JdwpLocation_eq lhs rhs"

section \<open>Session reset and teardown\<close>

text \<open>Modelled from the spec: \<open>UnregisterAll\<close> is defined outside this file; the spec's
  session reset has it "clear event list". The list is emptied, and its count with it.\<close>

definition UnregisterAll :: "JdwpState \<Rightarrow> JdwpState" where
  "UnregisterAll s = s\<lparr>eventList := [], numEvents := 0\<rparr>"

text \<open>\<open>ResetState\<close>. \<open>dchecks\<close> says whether \<open>DCHECK\<close> is compiled in (a debug build), where
  \<open>DCHECK(false)\<close> ends the process as a failed \<open>CHECK\<close> does.\<close>

definition ResetState :: "bool \<Rightarrow> JdwpState \<Rightarrow> event list \<times> (fatal + JdwpState)" where
  "ResetState dchecks s =
     (let s1 = UnregisterAll s in
      if \<not> (eventList s1 = []) then ([UnregisterAllCalled], Inl (CHECK_failed ''eventList == NULL''))
      else if eventThreadId s1 \<noteq> 0 then
        (if dchecks
         then ([UnregisterAllCalled, LogWarning ''Resetting state while event in progress''],
               Inl (CHECK_failed ''false''))
         else ([UnregisterAllCalled, LogWarning ''Resetting state while event in progress''], Inr s1))
      else ([UnregisterAllCalled], Inr s1))"

text \<open>The destructor \<open>~JdwpState\<close>. \<open>connected\<close> is what \<open>IsConnected()\<close> answers and
  \<open>join_rc\<close> what \<open>pthread_join\<close> returns.\<close>

definition JdwpState_destroy ::
  "bool \<Rightarrow> bool \<Rightarrow> int \<Rightarrow> JdwpState \<Rightarrow> event list \<times> (fatal + JdwpState)" where
  "JdwpState_destroy dchecks connected join_rc s =
     (case (if transport s \<noteq> None then
              ([TransportIsConnected connected] @ (if connected then [PostVMDeathCalled] else []) @
               [TransportShutdown] @
               (if debug_thread_started s
                then [PthreadJoin join_rc] @
                     (if join_rc \<noteq> 0 then [LogWarning ''JDWP thread join failed''] else [])
                else []) @
               [TransportFree],
               (if debug_thread_started s then s\<lparr>run := False\<rparr> else s)\<lparr>netState := None\<rparr>)
            else ([], s)) of
        (ev1, s1) \<Rightarrow>
          if \<not> (netState s1 = None) then (ev1, Inl (CHECK_failed ''netState == NULL''))
          else (case ResetState dchecks s1 of (ev2, r) \<Rightarrow> (ev1 @ ev2, r)))"

section \<open>The protocol thread\<close>

text \<open>The thread's surroundings are scripted. For one pass of the request loop the script
  says what \<open>Dbg::IsDisposed\<close>, the thread-state test, \<open>processIncoming\<close>,
  \<open>awaitingHandshake\<close> and \<open>Dbg::GetThreadSelfId\<close> answer, and what \<open>processIncoming\<close> (the
  command handlers it runs, and the other threads meanwhile) leaves in the session. For
  one connection it says what \<open>accept\<close> or \<open>establish\<close> answers and leaves in the session,
  and the passes of the request loop. Where the script ends, the thread is still running
  and its trace stops there.\<close>

record iteration =
  disposed :: bool
  in_vmwait :: bool
  incoming :: bool
  incoming_effect :: "JdwpState \<Rightarrow> JdwpState"
  awaiting :: bool
  self_id :: ObjectId

record connection =
  connect_ok :: bool
  connect_effect :: "JdwpState \<Rightarrow> JdwpState"
  iterations :: "iteration list"

datatype thread_result = Exited JdwpState | Unfinished JdwpState | Aborted fatal

text \<open>The sanity check at the head of the request loop's body.\<close>

definition vmwait_check :: "iteration \<Rightarrow> event list" where
  "vmwait_check i =
     ThreadStateIsVmWait (in_vmwait i) #
     (if \<not> in_vmwait i then [LogError ''JDWP thread no longer in VMWAIT; resetting'', DbgThreadWaiting]
      else [])"

text \<open>The request loop \<open>while (!Dbg::IsDisposed())\<close>, with its local \<open>first\<close>. It gives
  the session with which the loop was left, or the session reached when the script ends
  first.\<close>

datatype loop_result = Left_loop JdwpState | In_loop JdwpState

fun request_loop :: "bool \<Rightarrow> iteration list \<Rightarrow> JdwpState \<Rightarrow> event list \<times> loop_result" where
  "request_loop first [] s = ([], In_loop s)"
| "request_loop first (i # its) s =
     (if disposed i then ([DbgIsDisposed True], Left_loop s)
      else if \<not> incoming i
      then (DbgIsDisposed False # vmwait_check i @ [TransportProcessIncoming False],
            Left_loop (incoming_effect i s))
      else if first \<and> \<not> awaiting i
      then (case request_loop False its ((incoming_effect i s)\<lparr>debugThreadId := self_id i\<rparr>) of
              (evs, r) \<Rightarrow>
                (DbgIsDisposed False # vmwait_check i @
                 [TransportProcessIncoming True, TransportAwaitingHandshake False,
                  DbgGetThreadSelfId (self_id i),
                  Lock attach_lock, Broadcast attach_cond, Unlock attach_lock] @ evs, r))
      else (case request_loop first its (incoming_effect i s) of
              (evs, r) \<Rightarrow>
                (DbgIsDisposed False # vmwait_check i @
                 [TransportProcessIncoming True] @
                 (if first then [TransportAwaitingHandshake True] else []) @ evs, r)))"

text \<open>From \<open>transport->close\<close> to the end of the outer loop's body.\<close>

definition reset_connection ::
  "bool \<Rightarrow> JdwpOptions \<Rightarrow> JdwpState \<Rightarrow> event list \<times> (fatal + JdwpState)" where
  "reset_connection dchecks options s =
     (case (if ddmActive s
            then ([DbgThreadRunning, DbgDdmDisconnected, DbgThreadWaiting], s\<lparr>ddmActive := False\<rparr>)
            else ([], s)) of
        (ev_ddm, s1) \<Rightarrow>
          (case ResetState dchecks s1 of
             (ev_r, Inl f) \<Rightarrow> (TransportClose # ev_ddm @ ev_r, Inl f)
           | (ev_r, Inr s2) \<Rightarrow>
               (TransportClose # ev_ddm @ ev_r @ [DbgDisconnected, DbgUndoDebuggerSuspensions],
                Inr (if \<not> server options then s2\<lparr>run := False\<rparr> else s2))))"

text \<open>The outer loop \<open>while (run)\<close>.\<close>

fun Run_loop :: "bool \<Rightarrow> JdwpOptions \<Rightarrow> connection list \<Rightarrow> JdwpState \<Rightarrow> event list \<times> thread_result" where
  "Run_loop dchecks options [] s = (if run s then ([], Unfinished s) else ([], Exited s))"
| "Run_loop dchecks options (c # cs) s =
     (if \<not> run s then ([], Exited s)
      else if server options \<and> \<not> connect_ok c
      then ([TransportAccept s False], Exited (connect_effect c s))
      else if \<not> server options \<and> \<not> connect_ok c
      then ([TransportEstablish s False, Lock attach_lock, Broadcast attach_cond, Unlock attach_lock],
            Exited (connect_effect c s))
      else
        (case request_loop True (iterations c) (connect_effect c s) of
           (ev_q, In_loop s2) \<Rightarrow>
             ((if server options then TransportAccept s True else TransportEstablish s True) #
              DbgConnected # ev_q, Unfinished s2)
         | (ev_q, Left_loop s2) \<Rightarrow>
             (case reset_connection dchecks options s2 of
                (ev_r, Inl f) \<Rightarrow>
                  ((if server options then TransportAccept s True else TransportEstablish s True) #
                   DbgConnected # ev_q @ ev_r, Aborted f)
              | (ev_r, Inr s3) \<Rightarrow>
                  (case Run_loop dchecks options cs s3 of
                     (evs, r) \<Rightarrow>
                       ((if server options then TransportAccept s True else TransportEstablish s True) #
                        DbgConnected # ev_q @ ev_r @ evs, r)))))"

text \<open>\<open>Run\<close>, the body of the protocol thread.\<close>

definition Run :: "bool \<Rightarrow> JdwpOptions \<Rightarrow> connection list \<Rightarrow> JdwpState \<Rightarrow> event list \<times> thread_result" where
  "Run dchecks options script s =
     (case Run_loop dchecks options script (s\<lparr>run := True, debug_thread_started := True\<rparr>) of
        (evs, Exited s') \<Rightarrow>
          ([AttachCurrentThread, Lock thread_start_lock, Broadcast thread_start_cond,
            Unlock thread_start_lock, DbgThreadWaiting] @ evs @
           [DbgThreadRunning, DetachCurrentThread], Exited s')
      | (evs, r) \<Rightarrow>
          ([AttachCurrentThread, Lock thread_start_lock, Broadcast thread_start_cond,
            Unlock thread_start_lock, DbgThreadWaiting] @ evs, r))"

section \<open>The factory\<close>









section \<open>Example inputs\<close>

text \<open>Concrete sessions, options and surroundings on which the theorems below are tried.\<close>

definition torn_session :: JdwpState where
  "torn_session = JdwpState_new\<lparr>debug_thread_started := True, run := True,
     transport := Some SocketTransport, netState := Some 1\<rparr>"









definition server_options :: JdwpOptions where
  "server_options = \<lparr>options_transport = kJdwpTransportSocket, server = True, suspend = False\<rparr>"

definition client_options :: JdwpOptions where
  "client_options = \<lparr>options_transport = kJdwpTransportSocket, server = False, suspend = False\<rparr>"

text \<open>A pass of the request loop in which a packet arrives, with the handshake still
  pending or not; and a pass in which the debugger has gone.\<close>

definition packet :: "bool \<Rightarrow> iteration" where
  "packet pending = \<lparr>disposed = False, in_vmwait = True, incoming = True,
     incoming_effect = (\<lambda>s. s), awaiting = pending, self_id = 7\<rparr>"

definition dropped :: iteration where
  "dropped = \<lparr>disposed = False, in_vmwait = True, incoming = False,
     incoming_effect = (\<lambda>s. s), awaiting = False, self_id = 7\<rparr>"

text \<open>A connection attempt that fails, and a connection whose debugger completes the
  handshake with its second packet, sends one more and goes.\<close>

definition refused :: connection where
  "refused = \<lparr>connect_ok = False, connect_effect = (\<lambda>s. s), iterations = []\<rparr>"

definition session :: connection where
  "session = \<lparr>connect_ok = True, connect_effect = (\<lambda>s. s),
     iterations = [packet True, packet False, packet False, dropped]\<rparr>"

text \<open>The session as the thread has it when it enters its loop, and as it is after a
  handshake.\<close>

definition running :: JdwpState where
  "running = JdwpState_new\<lparr>run := True, debug_thread_started := True\<rparr>"

definition attached :: JdwpState where
  "attached = JdwpState_new\<lparr>run := True, debug_thread_started := True, debugThreadId := 7\<rparr>"

text \<open>A debugger that goes while an event is in progress and DDM is active, and the
  session this leaves.\<close>

definition dropped_mid_event :: iteration where
  "dropped_mid_event = \<lparr>disposed = False, in_vmwait = True, incoming = False,
     incoming_effect = (\<lambda>s. s\<lparr>eventThreadId := 5, ddmActive := True, eventList := [1, 2],
                                 numEvents := 2\<rparr>),
     awaiting = False, self_id = 7\<rparr>"

definition interrupted :: connection where
  "interrupted = \<lparr>connect_ok = True, connect_effect = (\<lambda>s. s),
     iterations = [packet False, dropped_mid_event]\<rparr>"

definition mid_event :: JdwpState where
  "mid_event = JdwpState_new\<lparr>run := True, debug_thread_started := True, debugThreadId := 7,
     eventThreadId := 5, ddmActive := True, eventList := [1, 2], numEvents := 2\<rparr>"

definition after_mid_event :: JdwpState where
  "after_mid_event = JdwpState_new\<lparr>run := True, debug_thread_started := True, debugThreadId := 7,
     eventThreadId := 5\<rparr>"

section \<open>Which part of the thread an event comes from\<close>

text \<open>The events the request loop can record, the events the path from \<open>close\<close> to the end
  of the outer loop's body can record, and the two calls that open a connection.\<close>

fun loop_event :: "event \<Rightarrow> bool" where
  "loop_event (DbgIsDisposed b) = True"
| "loop_event (ThreadStateIsVmWait b) = True"
| "loop_event (LogError m) = True"
| "loop_event DbgThreadWaiting = True"
| "loop_event (TransportProcessIncoming b) = True"
| "loop_event (TransportAwaitingHandshake b) = True"
| "loop_event (DbgGetThreadSelfId tid) = True"
| "loop_event (Lock m) = (m = attach_lock)"
| "loop_event (Broadcast c) = (c = attach_cond)"
| "loop_event (Unlock m) = (m = attach_lock)"
| "loop_event e = False"

fun reset_event :: "event \<Rightarrow> bool" where
  "reset_event TransportClose = True"
| "reset_event DbgThreadRunning = True"
| "reset_event DbgDdmDisconnected = True"
| "reset_event DbgThreadWaiting = True"
| "reset_event UnregisterAllCalled = True"
| "reset_event (LogWarning m) = True"
| "reset_event DbgDisconnected = True"
| "reset_event DbgUndoDebuggerSuspensions = True"
| "reset_event e = False"


section \<open>The thread id a trace has recorded\<close>

text \<open>The value that the last \<open>Dbg::GetThreadSelfId\<close> of a trace returned, or a given value
  when the trace holds no such call; and a script whose surroundings leave
  \<open>debugThreadId\<close> alone.\<close>

definition self_id_after :: "ObjectId \<Rightarrow> event \<Rightarrow> ObjectId" where
  "self_id_after v e = (case e of DbgGetThreadSelfId tid \<Rightarrow> tid | _ \<Rightarrow> v)"

definition last_self_id :: "ObjectId \<Rightarrow> event list \<Rightarrow> ObjectId" where
  "last_self_id v es = foldl self_id_after v es"

definition leaves_debugThreadId :: "connection list \<Rightarrow> bool" where
  "leaves_debugThreadId script \<longleftrightarrow>
     (\<forall>c \<in> set script.
        (\<forall>s. debugThreadId (connect_effect c s) = debugThreadId s) \<and>
        (\<forall>i \<in> set (iterations c). \<forall>s. debugThreadId (incoming_effect i s) = debugThreadId s))"

section \<open>Serial counters: what the calls return\<close>

lemma returned_request:
  "returned CallRequest cs s =
     map (\<lambda>i. requestSerial s + of_nat i) [0..<calls_to CallRequest cs]"
  unfolding calls_to_def
proof (induction cs arbitrary: s)
  case Nil
  then show ?case by (simp add: returned_def)
next
  case (Cons c cs)
  show ?case
  proof (cases c)
    case CallRequest
    have "returned CallRequest (c # cs) s
            = requestSerial s # returned CallRequest cs (s\<lparr>requestSerial := requestSerial s + 1\<rparr>)"
      by (simp add: CallRequest returned_def NextRequestSerial_def split: prod.splits)
    then show ?thesis
      by (simp add: CallRequest Cons.IH upt_conv_Cons map_Suc_upt [symmetric] add.assoc del: upt_Suc)
  next
    case CallEvent
    have "returned CallRequest (c # cs) s
            = returned CallRequest cs (s\<lparr>eventSerial := eventSerial s + 1\<rparr>)"
      by (simp add: CallEvent returned_def NextEventSerial_def split: prod.splits)
    then show ?thesis
      by (simp add: CallEvent Cons.IH)
  qed
qed

lemma returned_event:
  "returned CallEvent cs s =
     map (\<lambda>i. eventSerial s + of_nat i) [0..<calls_to CallEvent cs]"
  unfolding calls_to_def
proof (induction cs arbitrary: s)
  case Nil
  then show ?case by (simp add: returned_def)
next
  case (Cons c cs)
  show ?case
  proof (cases c)
    case CallEvent
    have "returned CallEvent (c # cs) s
            = eventSerial s # returned CallEvent cs (s\<lparr>eventSerial := eventSerial s + 1\<rparr>)"
      by (simp add: CallEvent returned_def NextEventSerial_def split: prod.splits)
    then show ?thesis
      by (simp add: CallEvent Cons.IH upt_conv_Cons map_Suc_upt [symmetric] add.assoc del: upt_Suc)
  next
    case CallRequest
    have "returned CallEvent (c # cs) s
            = returned CallEvent cs (s\<lparr>requestSerial := requestSerial s + 1\<rparr>)"
      by (simp add: CallRequest returned_def NextRequestSerial_def split: prod.splits)
    then show ?thesis
      by (simp add: CallRequest Cons.IH)
  qed
qed

lemma unat_of_nat_u32: "i < 2 ^ 32 \<Longrightarrow> unat (of_nat i :: u32) = i"
  by (rule of_nat_inverse [OF refl]) simp

lemma of_nat_u32_inj:
  "i < 2 ^ 32 \<Longrightarrow> j < 2 ^ 32 \<Longrightarrow> (of_nat i :: u32) = of_nat j \<Longrightarrow> i = j"
  by (metis unat_of_nat_u32)

lemma distinct_counter:
  assumes "n \<le> 2 ^ 32"
  shows "distinct (map (\<lambda>i. (c::u32) + of_nat i) [0..<n])"
proof -
  have "inj_on (\<lambda>i. c + of_nat i) {0..<n}"
  proof (rule inj_onI)
    fix x y assume "x \<in> {0..<n}" "y \<in> {0..<n}" "c + of_nat x = c + of_nat y"
    then have "x < 2 ^ 32" "y < 2 ^ 32" "(of_nat x :: u32) = of_nat y"
      using assms by auto
    then show "x = y" by (rule of_nat_u32_inj)
  qed
  then show ?thesis by (simp add: distinct_map)
qed

lemma unat_counter:
  assumes "unat (c::u32) + i < 2 ^ 32"
  shows "unat (c + of_nat i) = unat c + i"
proof -
  have i: "unat (of_nat i :: u32) = i"
    using assms by (intro unat_of_nat_u32) linarith
  have "unat c + unat (of_nat i :: u32) < 2 ^ LENGTH(32)"
    using assms i by simp
  then have "unat (c + of_nat i) = unat c + unat (of_nat i :: u32)"
    by (simp only: unat_add_lem)
  then show ?thesis using i by simp
qed

lemma sorted_counter:
  assumes "unat (c::u32) + n \<le> 2 ^ 32"
  shows "sorted_wrt (<) (map (\<lambda>i. c + of_nat i) [0..<n])"
proof -
  have "c + of_nat i < c + of_nat j" if "i < j" "j < n" for i j
  proof -
    have "unat (c + of_nat i) = unat c + i" "unat (c + of_nat j) = unat c + j"
      using that assms by (auto intro!: unat_counter)
    then show ?thesis using that by (simp add: word_less_nat_alt)
  qed
  then show ?thesis by (simp add: sorted_wrt_iff_nth_less)
qed

lemma calls_to_replicate: "calls_to k (replicate n k) = n"
  by (simp add: calls_to_def)

text \<open>Claim C4, as the code has it. Each of \<open>NextRequestSerial\<close> and
  \<open>NextEventSerial\<close> returns the value its counter held before the call and adds one to
  that counter. In any sequence of calls the values one counter returns are pairwise
  distinct as long as that counter is called at most \<open>2 ^ 32\<close> times, and they are
  strictly increasing in call order as long as the counter does not pass \<open>2 ^ 32 - 1\<close>,
  that is, as long as its value before the first call plus the number of calls is at most
  \<open>2 ^ 32\<close>.\<close>

theorem serial_pre_increment:
  "NextRequestSerial s = (requestSerial s, s\<lparr>requestSerial := requestSerial s + 1\<rparr>) \<and>
   NextEventSerial s = (eventSerial s, s\<lparr>eventSerial := eventSerial s + 1\<rparr>) \<and>
   (calls_to CallRequest cs \<le> 2 ^ 32 \<longrightarrow> distinct (returned CallRequest cs s)) \<and>
   (calls_to CallEvent cs \<le> 2 ^ 32 \<longrightarrow> distinct (returned CallEvent cs s)) \<and>
   (unat (requestSerial s) + calls_to CallRequest cs \<le> 2 ^ 32 \<longrightarrow>
      sorted_wrt (<) (returned CallRequest cs s)) \<and>
   (unat (eventSerial s) + calls_to CallEvent cs \<le> 2 ^ 32 \<longrightarrow>
      sorted_wrt (<) (returned CallEvent cs s))"
  by (simp add: NextRequestSerial_def NextEventSerial_def returned_request returned_event
      distinct_counter sorted_counter)

text \<open>Witness for C4: two request serials and one event serial drawn from a new session.\<close>

theorem serial_pre_increment_witness:
  "calls_to CallRequest [CallRequest, CallEvent, CallRequest] \<le> 2 ^ 32 \<and>
   unat (requestSerial JdwpState_new) + calls_to CallRequest [CallRequest, CallEvent, CallRequest] \<le> 2 ^ 32 \<and>
   returned CallRequest [CallRequest, CallEvent, CallRequest] JdwpState_new = [0x10000000, 0x10000001] \<and>
   returned CallEvent [CallRequest, CallEvent, CallRequest] JdwpState_new = [0x20000000] \<and>
   distinct (returned CallRequest [CallRequest, CallEvent, CallRequest] JdwpState_new) \<and>
   sorted_wrt (<) (returned CallRequest [CallRequest, CallEvent, CallRequest] JdwpState_new)"
  using serial_pre_increment [of JdwpState_new "[CallRequest, CallEvent, CallRequest]"]
  by (simp add: calls_to_def JdwpState_new_def returned_def NextRequestSerial_def NextEventSerial_def)

text \<open>Counterexample for C4 as stated: \<open>0xF0000001\<close> calls of
  \<open>NextRequestSerial\<close> on a new session are fewer than \<open>2 ^ 32\<close> calls, and the values
  returned are not strictly increasing: call number \<open>0xF0000000\<close> returns
  \<open>0xFFFFFFFF\<close> and the next call returns \<open>0\<close>.\<close>

theorem serial_increasing_counterexample:
  "calls_to CallRequest (replicate 4026531841 CallRequest) < 2 ^ 32 \<and>
   \<not> sorted_wrt (<) (returned CallRequest (replicate 4026531841 CallRequest) JdwpState_new)"
proof
  show "calls_to CallRequest (replicate 4026531841 CallRequest) < 2 ^ 32"
    by (simp only: calls_to_replicate) simp
  let ?f = "\<lambda>i. (0x10000000 :: u32) + of_nat i"
  have r: "returned CallRequest (replicate 4026531841 CallRequest) JdwpState_new
             = map ?f [0..<4026531841]"
    by (simp only: returned_request calls_to_replicate) (simp add: JdwpState_new_def)
  show "\<not> sorted_wrt (<) (returned CallRequest (replicate 4026531841 CallRequest) JdwpState_new)"
  proof
    assume "sorted_wrt (<) (returned CallRequest (replicate 4026531841 CallRequest) JdwpState_new)"
    then have "sorted_wrt (<) (map ?f [0..<4026531841])"
      by (simp only: r)
    then have "\<forall>i j. i < j \<longrightarrow> j < 4026531841 \<longrightarrow> ?f i < ?f j"
      by (simp only: sorted_wrt_iff_nth_less length_map length_upt) (simp del: upt_rec_numeral)
    then have "(4026531839::nat) < 4026531840 \<longrightarrow> (4026531840::nat) < 4026531841
                 \<longrightarrow> ?f 4026531839 < ?f 4026531840"
      by blast
    then show False by simp
  qed
qed

lemma counter_range:
  assumes "x \<in> set (map (\<lambda>i. (c::u32) + of_nat i) [0..<n])" and "unat c + n \<le> 2 ^ 32"
  shows "unat c \<le> unat x \<and> unat x < unat c + n"
proof -
  from assms(1) obtain i where i: "i < n" "x = c + of_nat i" by auto
  then have "unat x = unat c + i"
    using assms(2) by (simp add: unat_counter)
  then show ?thesis using i by simp
qed

lemma request_range:
  assumes "calls_to CallRequest cs \<le> n" "268435456 + n \<le> (2::nat) ^ 32"
    and "x \<in> set (returned CallRequest cs JdwpState_new)"
  shows "268435456 \<le> unat x \<and> unat x < 268435456 + n"
proof -
  have "x \<in> set (map (\<lambda>i. (0x10000000::u32) + of_nat i) [0..<calls_to CallRequest cs])"
    using assms(3) by (simp add: returned_request JdwpState_new_def)
  moreover have "unat (0x10000000::u32) + calls_to CallRequest cs \<le> 2 ^ 32"
    using assms(1,2) by simp
  ultimately have "unat (0x10000000::u32) \<le> unat x
      \<and> unat x < unat (0x10000000::u32) + calls_to CallRequest cs"
    by (rule counter_range)
  then show ?thesis using assms(1) by simp
qed

lemma event_range:
  assumes "calls_to CallEvent cs \<le> n" "536870912 + n \<le> (2::nat) ^ 32"
    and "x \<in> set (returned CallEvent cs JdwpState_new)"
  shows "536870912 \<le> unat x \<and> unat x < 536870912 + n"
proof -
  have "x \<in> set (map (\<lambda>i. (0x20000000::u32) + of_nat i) [0..<calls_to CallEvent cs])"
    using assms(3) by (simp add: returned_event JdwpState_new_def)
  moreover have "unat (0x20000000::u32) + calls_to CallEvent cs \<le> 2 ^ 32"
    using assms(1,2) by simp
  ultimately have "unat (0x20000000::u32) \<le> unat x
      \<and> unat x < unat (0x20000000::u32) + calls_to CallEvent cs"
    by (rule counter_range)
  then show ?thesis using assms(1) by simp
qed

text \<open>Claim C5, as the code has it. The constructor starts the request counter at
  \<open>0x10000000\<close> and the event counter at \<open>0x20000000\<close>. In any sequence of calls on a
  new session, no request serial is zero while at most \<open>0xF0000000\<close> request serials
  have been drawn, no event serial is zero while at most \<open>0xE0000000\<close> event serials
  have been drawn, and no request serial equals an event serial while at most
  \<open>0x10000000\<close> request serials and at most \<open>0xE0000000\<close> event serials have been
  drawn.\<close>

theorem serial_bases_disjoint:
  "requestSerial JdwpState_new = 0x10000000 \<and> eventSerial JdwpState_new = 0x20000000 \<and>
   (calls_to CallRequest cs \<le> 0xF0000000 \<longrightarrow> 0 \<notin> set (returned CallRequest cs JdwpState_new)) \<and>
   (calls_to CallEvent cs \<le> 0xE0000000 \<longrightarrow> 0 \<notin> set (returned CallEvent cs JdwpState_new)) \<and>
   (calls_to CallRequest cs \<le> 0x10000000 \<and> calls_to CallEvent cs \<le> 0xE0000000 \<longrightarrow>
      set (returned CallRequest cs JdwpState_new) \<inter> set (returned CallEvent cs JdwpState_new) = {})"
proof (intro conjI impI)
  show "requestSerial JdwpState_new = 0x10000000" "eventSerial JdwpState_new = 0x20000000"
    by (simp_all add: JdwpState_new_def)
next
  assume "calls_to CallRequest cs \<le> 0xF0000000"
  then show "0 \<notin> set (returned CallRequest cs JdwpState_new)"
    using request_range [of cs 4026531840 0] by auto
next
  assume "calls_to CallEvent cs \<le> 0xE0000000"
  then show "0 \<notin> set (returned CallEvent cs JdwpState_new)"
    using event_range [of cs 3758096384 0] by auto
next
  assume a: "calls_to CallRequest cs \<le> 0x10000000 \<and> calls_to CallEvent cs \<le> 0xE0000000"
  show "set (returned CallRequest cs JdwpState_new) \<inter> set (returned CallEvent cs JdwpState_new) = {}"
  proof (rule ccontr)
    assume "\<not> ?thesis"
    then obtain x where x: "x \<in> set (returned CallRequest cs JdwpState_new)"
        "x \<in> set (returned CallEvent cs JdwpState_new)"
      by auto
    have "unat x < 268435456 + 268435456"
      using request_range [of cs 268435456 x] a x(1) by simp
    moreover have "536870912 \<le> unat x"
      using event_range [of cs 3758096384 x] a x(2) by simp
    ultimately show False by simp
  qed
qed

text \<open>Witness for C5: one request serial and one event serial drawn from a new session.\<close>

theorem serial_bases_disjoint_witness:
  "calls_to CallRequest [CallRequest, CallEvent] \<le> 0x10000000 \<and>
   calls_to CallEvent [CallRequest, CallEvent] \<le> 0xE0000000 \<and>
   returned CallRequest [CallRequest, CallEvent] JdwpState_new = [0x10000000] \<and>
   returned CallEvent [CallRequest, CallEvent] JdwpState_new = [0x20000000] \<and>
   set (returned CallRequest [CallRequest, CallEvent] JdwpState_new)
     \<inter> set (returned CallEvent [CallRequest, CallEvent] JdwpState_new) = {}"
  using serial_bases_disjoint [of "[CallRequest, CallEvent]"]
  by (simp add: calls_to_def JdwpState_new_def returned_def NextRequestSerial_def NextEventSerial_def)

text \<open>Counterexample for C5 as stated: after one call of
  \<open>NextEventSerial\<close>, which returns \<open>0x20000000\<close>, the \<open>0x10000001\<close>-th call of
  \<open>NextRequestSerial\<close> returns \<open>0x20000000\<close> as well; and the \<open>0xF0000001\<close>-th call
  of \<open>NextRequestSerial\<close> returns zero.\<close>

theorem serial_collision_counterexample:
  "0x20000000 \<in> set (returned CallEvent (CallEvent # replicate 268435457 CallRequest) JdwpState_new) \<and>
   0x20000000 \<in> set (returned CallRequest (CallEvent # replicate 268435457 CallRequest) JdwpState_new) \<and>
   0 \<in> set (returned CallRequest (replicate 4026531841 CallRequest) JdwpState_new)"
proof (intro conjI)
  have e: "calls_to CallEvent (CallEvent # replicate 268435457 CallRequest) = 1"
    by (simp add: calls_to_def)
  show "0x20000000 \<in> set (returned CallEvent (CallEvent # replicate 268435457 CallRequest) JdwpState_new)"
    by (simp only: returned_event e) (simp add: JdwpState_new_def)
  have q: "calls_to CallRequest (CallEvent # replicate 268435457 CallRequest) = 268435457"
    by (simp add: calls_to_def)
  have "(0x20000000::u32) = (\<lambda>i. 0x10000000 + of_nat i) (268435456::nat)"
    by simp
  moreover have "(268435456::nat) \<in> set [0..<268435457]"
    by (simp del: upt_rec_numeral)
  ultimately have "(0x20000000::u32) \<in> (\<lambda>i. 0x10000000 + of_nat i) ` set [0..<268435457]"
    by (rule image_eqI)
  then show "0x20000000 \<in> set (returned CallRequest (CallEvent # replicate 268435457 CallRequest) JdwpState_new)"
    by (simp only: returned_request q set_map) (simp add: JdwpState_new_def del: upt_rec_numeral set_upt)
  have "(0::u32) = (\<lambda>i. 0x10000000 + of_nat i) (4026531840::nat)"
    by simp
  moreover have "(4026531840::nat) \<in> set [0..<4026531841]"
    by (simp del: upt_rec_numeral)
  ultimately have "(0::u32) \<in> (\<lambda>i. 0x10000000 + of_nat i) ` set [0..<4026531841]"
    by (rule image_eqI)
  then show "0 \<in> set (returned CallRequest (replicate 4026531841 CallRequest) JdwpState_new)"
    by (simp only: returned_request calls_to_replicate set_map) (simp add: JdwpState_new_def del: upt_rec_numeral set_upt)
qed

section \<open>Packet sink: one write under the lock\<close>

text \<open>Claim C9. \<open>writePacket\<close> and \<open>writeBufferedPacket\<close> each take the socket lock,
  make one call of \<open>write\<close> (of the buffer and its length) or \<open>writev\<close> (of the vector as
  given), release the lock, and return what that one call returned, whatever it is: a
  short count and \<open>-1\<close> go to the caller as they are, and no second write is made.\<close>

theorem packet_single_write:
  "writePacket sys_write ns pReply =
     ([Lock socket_lock,
       SysWrite (clientSock ns) (storage pReply) (curLen pReply)
         (sys_write (clientSock ns) (storage pReply) (curLen pReply)),
       Unlock socket_lock],
      sys_write (clientSock ns) (storage pReply) (curLen pReply)) \<and>
   writeBufferedPacket sys_writev ns iov iov_count =
     ([Lock socket_lock,
       SysWritev (clientSock ns) iov iov_count (sys_writev (clientSock ns) iov iov_count),
       Unlock socket_lock],
      sys_writev (clientSock ns) iov iov_count) \<and>
   length (filter is_write (fst (writePacket sys_write ns pReply))) = 1 \<and>
   length (filter is_write (fst (writeBufferedPacket sys_writev ns iov iov_count))) = 1"
  by (simp add: writePacket_def writeBufferedPacket_def expandBufGetBuffer_def
      expandBufGetLength_def Let_def)

section \<open>Time since the last debugger activity: the three outcomes\<close>

text \<open>A difference of two signed 64-bit values does not overflow when the smaller one is
  not negative.\<close>

lemma sint_sub_i64:
  assumes "0 \<le> sint (b::i64)" "sint b \<le> sint (a::i64)"
  shows "sint (a - b) = sint a - sint b"
proof -
  have "sint a < 2 ^ 63"
    using sint_lt [of a] by simp
  then have "- (2 ^ 63) \<le> sint a - sint b" "sint a - sint b < 2 ^ 63"
    using assms by simp_all
  then have "signed_take_bit 63 (sint a - sint b) = sint a - sint b"
    by (simp add: signed_take_bit_int_eq_self)
  then show ?thesis
    by (simp add: sint_word_ariths)
qed

text \<open>Claim C7, as the code has it, for a last-activity timestamp that is not negative.
  \<open>LastDebuggerActivity\<close> returns \<open>-1\<close> exactly when no debugger is connected, and that is
  decided by the connectedness query, not by the timestamp. With a debugger connected and
  the timestamp \<open>0\<close> it returns \<open>0\<close>; it returns \<open>0\<close> exactly when a debugger is connected
  and the timestamp is \<open>0\<close> or equal to the current time. With a debugger connected, a
  timestamp other than \<open>0\<close> and a current time not before it, it returns the current time
  minus the timestamp, which is not negative; with a current time before the timestamp
  the \<open>CHECK\<close> fails and nothing is returned.\<close>

theorem LastDebuggerActivity_cases:
  assumes "0 \<le> sint (lastActivityWhen s)"
  shows "(LastDebuggerActivity connected now s = Inr (- 1) \<longleftrightarrow> \<not> connected) \<and>
         (connected \<and> lastActivityWhen s = 0 \<longrightarrow> LastDebuggerActivity connected now s = Inr 0) \<and>
         (LastDebuggerActivity connected now s = Inr 0 \<longleftrightarrow>
            connected \<and> (lastActivityWhen s = 0 \<or> now = lastActivityWhen s)) \<and>
         (connected \<and> lastActivityWhen s \<noteq> 0 \<and> sint (lastActivityWhen s) \<le> sint now \<longrightarrow>
            LastDebuggerActivity connected now s = Inr (now - lastActivityWhen s) \<and>
            sint (now - lastActivityWhen s) = sint now - sint (lastActivityWhen s) \<and>
            0 \<le> sint (now - lastActivityWhen s)) \<and>
         (connected \<and> lastActivityWhen s \<noteq> 0 \<and> sint now < sint (lastActivityWhen s) \<longrightarrow>
            LastDebuggerActivity connected now s = Inl (CHECK_failed ''now >= last''))"
proof -
  have sub: "sint (now - lastActivityWhen s) = sint now - sint (lastActivityWhen s)"
    if "sint (lastActivityWhen s) \<le> sint now"
    using assms that by (rule sint_sub_i64)
  have m1: "now - lastActivityWhen s \<noteq> - 1" if "sint (lastActivityWhen s) \<le> sint now"
  proof
    assume "now - lastActivityWhen s = - 1"
    then have "sint (now - lastActivityWhen s) = - 1" by simp
    with sub [OF that] that show False by simp
  qed
  show ?thesis
    using sub m1 by (auto simp: LastDebuggerActivity_def Let_def)
qed

text \<open>Witness for C7: a session whose last activity was at \<open>1350000000000\<close> ms, asked
  without a debugger, asked 500 ms later, and asked 1 ms earlier; and a new session, whose
  timestamp is \<open>0\<close>.\<close>

theorem LastDebuggerActivity_cases_witness:
  "0 \<le> sint (lastActivityWhen (JdwpState_new\<lparr>lastActivityWhen := 1350000000000\<rparr>)) \<and>
   LastDebuggerActivity False 1350000000500 (JdwpState_new\<lparr>lastActivityWhen := 1350000000000\<rparr>) = Inr (- 1) \<and>
   LastDebuggerActivity True 1350000000500 JdwpState_new = Inr 0 \<and>
   LastDebuggerActivity True 1350000000500 (JdwpState_new\<lparr>lastActivityWhen := 1350000000000\<rparr>) = Inr 500 \<and>
   sint (1350000000500 - lastActivityWhen (JdwpState_new\<lparr>lastActivityWhen := 1350000000000\<rparr>)) = 500 \<and>
   LastDebuggerActivity True 1349999999999 (JdwpState_new\<lparr>lastActivityWhen := 1350000000000\<rparr>)
     = Inl (CHECK_failed ''now >= last'')"
  using LastDebuggerActivity_cases [of "JdwpState_new\<lparr>lastActivityWhen := 1350000000000\<rparr>" False 1350000000500]
    LastDebuggerActivity_cases [of "JdwpState_new\<lparr>lastActivityWhen := 1350000000000\<rparr>" True 1350000000500]
    LastDebuggerActivity_cases [of "JdwpState_new\<lparr>lastActivityWhen := 1350000000000\<rparr>" True 1349999999999]
    LastDebuggerActivity_cases [of JdwpState_new True 1350000000500]
  by (simp add: JdwpState_new_def)

text \<open>Counterexample for C7 as stated: asked in the very millisecond
  of the last activity, with a debugger connected, the function returns \<open>0\<close> although the
  timestamp is not the sentinel \<open>0\<close>.\<close>

theorem LastDebuggerActivity_zero_counterexample:
  "LastDebuggerActivity True 1350000000000 (JdwpState_new\<lparr>lastActivityWhen := 1350000000000\<rparr>) = Inr 0 \<and>
   lastActivityWhen (JdwpState_new\<lparr>lastActivityWhen := 1350000000000\<rparr>) \<noteq> 0"
  by (simp add: LastDebuggerActivity_def JdwpState_new_def)

section \<open>Locations: equality\<close>

text \<open>Claim C10. \<open>operator==\<close> on locations holds exactly when \<open>idx\<close>, \<open>methodId\<close>,
  \<open>classId\<close> and \<open>typeTag\<close> are equal pairwise; it is reflexive, symmetric and transitive; and
  \<open>operator!=\<close> is its negation.\<close>

theorem JdwpLocation_eq_fields:
  "(JdwpLocation_eq a b \<longleftrightarrow>
      idx a = idx b \<and> methodId a = methodId b \<and> classId a = classId b \<and> typeTag a = typeTag b) \<and>
   JdwpLocation_eq a a \<and>
   (JdwpLocation_eq a b \<longrightarrow> JdwpLocation_eq b a) \<and>
   (JdwpLocation_eq a b \<and> JdwpLocation_eq b c \<longrightarrow> JdwpLocation_eq a c) \<and>
   (JdwpLocation_ne a b \<longleftrightarrow> \<not> JdwpLocation_eq a b)"
  by (auto simp: JdwpLocation_eq_def JdwpLocation_ne_def)

text \<open>Witness for C10: a location compared with itself, with one of another type tag and
  with one of another index.\<close>

theorem JdwpLocation_eq_fields_witness:
  "JdwpLocation_eq \<lparr>typeTag = TT_CLASS, classId = 7, methodId = 3, idx = 12\<rparr>
                   \<lparr>typeTag = TT_CLASS, classId = 7, methodId = 3, idx = 12\<rparr> \<and>
   \<not> JdwpLocation_ne \<lparr>typeTag = TT_CLASS, classId = 7, methodId = 3, idx = 12\<rparr>
                     \<lparr>typeTag = TT_CLASS, classId = 7, methodId = 3, idx = 12\<rparr> \<and>
   \<not> JdwpLocation_eq \<lparr>typeTag = TT_CLASS, classId = 7, methodId = 3, idx = 12\<rparr>
                     \<lparr>typeTag = TT_ARRAY, classId = 7, methodId = 3, idx = 12\<rparr> \<and>
   JdwpLocation_ne \<lparr>typeTag = TT_CLASS, classId = 7, methodId = 3, idx = 12\<rparr>
                   \<lparr>typeTag = TT_CLASS, classId = 7, methodId = 3, idx = 13\<rparr>"
  using JdwpLocation_eq_fields
      [of "\<lparr>typeTag = TT_CLASS, classId = 7, methodId = 3, idx = 12\<rparr>"
          "\<lparr>typeTag = TT_CLASS, classId = 7, methodId = 3, idx = 12\<rparr>"
          "\<lparr>typeTag = TT_CLASS, classId = 7, methodId = 3, idx = 12\<rparr>"]
    JdwpLocation_eq_fields
      [of "\<lparr>typeTag = TT_CLASS, classId = 7, methodId = 3, idx = 12\<rparr>"
          "\<lparr>typeTag = TT_ARRAY, classId = 7, methodId = 3, idx = 12\<rparr>"
          "\<lparr>typeTag = TT_CLASS, classId = 7, methodId = 3, idx = 12\<rparr>"]
    JdwpLocation_eq_fields
      [of "\<lparr>typeTag = TT_CLASS, classId = 7, methodId = 3, idx = 12\<rparr>"
          "\<lparr>typeTag = TT_CLASS, classId = 7, methodId = 3, idx = 13\<rparr>"
          "\<lparr>typeTag = TT_CLASS, classId = 7, methodId = 3, idx = 12\<rparr>"]
  by simp

section \<open>Session reset and teardown: what they leave\<close>

text \<open>When \<open>ResetState\<close> returns, the session is the one it was given with the event
  list emptied; in a debug build it returns only when no event was in progress.\<close>

lemma ResetState_Inr:
  "ResetState d s = (evs, Inr s') \<Longrightarrow>
     s' = s\<lparr>eventList := [], numEvents := 0\<rparr> \<and> (d \<longrightarrow> eventThreadId s = 0)"
  by (auto simp: ResetState_def UnregisterAll_def Let_def split: if_splits)

lemma ResetState_completes:
  "(\<exists>s'. snd (ResetState d s) = Inr s') \<longleftrightarrow> (d \<longrightarrow> eventThreadId s = 0)"
  by (auto simp: ResetState_def UnregisterAll_def Let_def)

text \<open>Claim C8. In the destructor of a session with a transport and a started thread, a
  \<open>pthread_join\<close> that fails is followed by the warning and then by the transport's
  \<open>free\<close>, and the outcome of the destructor is the one it has when the join succeeds.
  Whenever a transport is bound, \<open>free\<close> is called. Whenever the destructor completes, the
  net-state reference is null. It completes exactly when the hard check passes (a session
  without a transport has no net state) and, in a debug build, no event is in progress.\<close>

theorem teardown_join_failure:
  "(transport s \<noteq> None \<and> debug_thread_started s \<and> join_rc \<noteq> 0 \<longrightarrow>
      (\<exists>pre post. fst (JdwpState_destroy d c join_rc s)
          = pre @ [PthreadJoin join_rc, LogWarning ''JDWP thread join failed'', TransportFree] @ post) \<and>
      snd (JdwpState_destroy d c join_rc s) = snd (JdwpState_destroy d c 0 s)) \<and>
   (transport s \<noteq> None \<longrightarrow> TransportFree \<in> set (fst (JdwpState_destroy d c join_rc s))) \<and>
   (\<forall>s'. snd (JdwpState_destroy d c join_rc s) = Inr s' \<longrightarrow> netState s' = None) \<and>
   ((\<exists>s'. snd (JdwpState_destroy d c join_rc s) = Inr s') \<longleftrightarrow>
      (transport s = None \<longrightarrow> netState s = None) \<and> (d \<longrightarrow> eventThreadId s = 0))"
proof (intro conjI impI allI)
  assume a: "transport s \<noteq> None \<and> debug_thread_started s \<and> join_rc \<noteq> 0"
  obtain ev2 r where r: "ResetState d (s\<lparr>run := False, netState := None\<rparr>) = (ev2, r)"
    by (cases "ResetState d (s\<lparr>run := False, netState := None\<rparr>)")
  have "fst (JdwpState_destroy d c join_rc s)
          = ([TransportIsConnected c] @ (if c then [PostVMDeathCalled] else []) @ [TransportShutdown])
            @ [PthreadJoin join_rc, LogWarning ''JDWP thread join failed'', TransportFree] @ ev2"
    using a r by (simp add: JdwpState_destroy_def)
  then show "\<exists>pre post. fst (JdwpState_destroy d c join_rc s)
          = pre @ [PthreadJoin join_rc, LogWarning ''JDWP thread join failed'', TransportFree] @ post"
    by blast
  show "snd (JdwpState_destroy d c join_rc s) = snd (JdwpState_destroy d c 0 s)"
    using a r by (simp add: JdwpState_destroy_def)
next
  assume "transport s \<noteq> None"
  then show "TransportFree \<in> set (fst (JdwpState_destroy d c join_rc s))"
    by (simp add: JdwpState_destroy_def split: prod.splits)
next
  fix s' assume "snd (JdwpState_destroy d c join_rc s) = Inr s'"
  then show "netState s' = None"
    by (auto simp: JdwpState_destroy_def split: prod.splits if_splits dest!: ResetState_Inr)
next
  show "(\<exists>s'. snd (JdwpState_destroy d c join_rc s) = Inr s') \<longleftrightarrow>
      (transport s = None \<longrightarrow> netState s = None) \<and> (d \<longrightarrow> eventThreadId s = 0)"
  proof (cases "transport s = None")
    case True
    then show ?thesis
      using ResetState_completes [of d s]
      by (auto simp: JdwpState_destroy_def split: prod.splits)
  next
    case False
    then show ?thesis
      using ResetState_completes [of d "s\<lparr>run := False, netState := None\<rparr>"]
        ResetState_completes [of d "s\<lparr>netState := None\<rparr>"]
      by (auto simp: JdwpState_destroy_def split: prod.splits)
  qed
qed

text \<open>Witness for C8: a connected session with a started thread whose join fails with
  error 22, and a new session that never had a transport.\<close>

theorem teardown_join_failure_witness:
  "transport torn_session \<noteq> None \<and> debug_thread_started torn_session \<and> (22::int) \<noteq> 0 \<and>
   JdwpState_destroy False True 22 torn_session =
     ([TransportIsConnected True, PostVMDeathCalled, TransportShutdown, PthreadJoin 22,
       LogWarning ''JDWP thread join failed'', TransportFree, UnregisterAllCalled],
      Inr (torn_session\<lparr>run := False, netState := None\<rparr>)) \<and>
   snd (JdwpState_destroy False True 22 torn_session) = snd (JdwpState_destroy False True 0 torn_session) \<and>
   netState (torn_session\<lparr>run := False, netState := None\<rparr>) = None \<and>
   snd (JdwpState_destroy False False 0 JdwpState_new) = Inr JdwpState_new"
proof -
  have h: "transport torn_session \<noteq> None \<and> debug_thread_started torn_session \<and> (22::int) \<noteq> 0"
    by (simp add: torn_session_def)
  have v: "JdwpState_destroy False True 22 torn_session =
     ([TransportIsConnected True, PostVMDeathCalled, TransportShutdown, PthreadJoin 22,
       LogWarning ''JDWP thread join failed'', TransportFree, UnregisterAllCalled],
      Inr (torn_session\<lparr>run := False, netState := None\<rparr>))"
    by (simp add: torn_session_def JdwpState_new_def JdwpState_destroy_def ResetState_def
        UnregisterAll_def)
  have n: "snd (JdwpState_destroy False False 0 JdwpState_new) = Inr JdwpState_new"
    by (simp add: JdwpState_new_def JdwpState_destroy_def ResetState_def UnregisterAll_def)
  have j: "snd (JdwpState_destroy False True 22 torn_session)
             = snd (JdwpState_destroy False True 0 torn_session)"
    using teardown_join_failure [of torn_session 22 False True] h by blast
  have "netState (torn_session\<lparr>run := False, netState := None\<rparr>) = None"
    using teardown_join_failure [of torn_session 22 False True] v by simp
  with h v n j show ?thesis by simp
qed

section \<open>Occurrences of an event in a trace\<close>

text \<open>Where an event stands in a trace made of two or three parts.\<close>

lemma occurs_right:
  assumes "x \<notin> set as" "as @ bs = pre @ x # post"
  shows "\<exists>p. pre = as @ p \<and> bs = p @ x # post"
proof -
  from assms(2) obtain us where
    "(as = pre @ us \<and> us @ bs = x # post) \<or> (as @ us = pre \<and> bs = us @ x # post)"
    by (auto simp: append_eq_append_conv2)
  then show ?thesis
  proof
    assume a: "as = pre @ us \<and> us @ bs = x # post"
    show ?thesis
    proof (cases us)
      case Nil
      with a show ?thesis by simp
    next
      case (Cons u us')
      with a have "x \<in> set as" by simp
      with assms(1) show ?thesis by simp
    qed
  next
    assume "as @ us = pre \<and> bs = us @ x # post"
    then show ?thesis by blast
  qed
qed

lemma occurs_left:
  assumes "x \<notin> set bs" "as @ bs = pre @ x # post"
  shows "\<exists>q. as = pre @ x # q \<and> post = q @ bs"
proof -
  from assms(2) obtain us where
    "(as = pre @ us \<and> us @ bs = x # post) \<or> (as @ us = pre \<and> bs = us @ x # post)"
    by (auto simp: append_eq_append_conv2)
  then show ?thesis
  proof
    assume a: "as = pre @ us \<and> us @ bs = x # post"
    show ?thesis
    proof (cases us)
      case Nil
      with a have "x \<in> set bs" by simp
      with assms(1) show ?thesis by simp
    next
      case (Cons u us')
      with a show ?thesis by simp
    qed
  next
    assume "as @ us = pre \<and> bs = us @ x # post"
    then have "x \<in> set bs" by auto
    with assms(1) show ?thesis by simp
  qed
qed

lemma occurs_either:
  assumes "as @ bs = pre @ x # post"
  shows "(\<exists>q. as = pre @ x # q \<and> post = q @ bs) \<or> (\<exists>p. pre = as @ p \<and> bs = p @ x # post)"
proof -
  from assms obtain us where
    "(as = pre @ us \<and> us @ bs = x # post) \<or> (as @ us = pre \<and> bs = us @ x # post)"
    by (auto simp: append_eq_append_conv2)
  then show ?thesis
  proof
    assume a: "as = pre @ us \<and> us @ bs = x # post"
    show ?thesis
    proof (cases us)
      case Nil
      with a show ?thesis by simp
    next
      case (Cons u us')
      with a show ?thesis by simp
    qed
  next
    assume "as @ us = pre \<and> bs = us @ x # post"
    then show ?thesis by blast
  qed
qed


section \<open>The events of each part of the thread\<close>

lemma vmwait_check_events: "e \<in> set (vmwait_check i) \<Longrightarrow> loop_event e"
  by (auto simp: vmwait_check_def split: if_splits)

lemma request_loop_events:
  "request_loop first its s = (evs, r) \<Longrightarrow> e \<in> set evs \<Longrightarrow> loop_event e"
proof (induction its arbitrary: first s evs r)
  case Nil
  then show ?case by simp
next
  case (Cons i its)
  then show ?case
    by (auto split: if_splits prod.splits dest: vmwait_check_events)
qed

lemma ResetState_events: "ResetState d s = (evs, r) \<Longrightarrow> e \<in> set evs \<Longrightarrow> reset_event e"
  by (auto simp: ResetState_def Let_def split: if_splits)

lemma reset_connection_events:
  "reset_connection d options s = (evs, r) \<Longrightarrow> e \<in> set evs \<Longrightarrow> reset_event e"
  by (auto simp: reset_connection_def split: if_splits prod.splits sum.splits
      dest: ResetState_events)

section \<open>The request loop: where it broadcasts\<close>

text \<open>The four ways one pass of the request loop can go.\<close>

lemma request_loop_Cons_cases:
  assumes "request_loop first (i # its) s = (evs, r)"
  obtains
    (disposed) "evs = [DbgIsDisposed True]" "r = Left_loop s"
  | (dropped) "evs = DbgIsDisposed False # vmwait_check i @ [TransportProcessIncoming False]"
      "r = Left_loop (incoming_effect i s)"
  | (handshake) evs' where "first"
      "evs = (DbgIsDisposed False # vmwait_check i @
               [TransportProcessIncoming True, TransportAwaitingHandshake False,
                DbgGetThreadSelfId (self_id i), Lock attach_lock])
             @ Broadcast attach_cond # Unlock attach_lock # evs'"
      "request_loop False its ((incoming_effect i s)\<lparr>debugThreadId := self_id i\<rparr>) = (evs', r)"
  | (continue) evs' where
      "evs = (DbgIsDisposed False # vmwait_check i @ [TransportProcessIncoming True] @
               (if first then [TransportAwaitingHandshake True] else [])) @ evs'"
      "request_loop first its (incoming_effect i s) = (evs', r)"
  using assms by (auto split: if_splits prod.splits)

lemma vmwait_check_no_broadcast [simp]: "Broadcast c \<notin> set (vmwait_check i)"
  by (auto simp: vmwait_check_def)

lemma vmwait_check_no_awaiting [simp]: "TransportAwaitingHandshake b \<notin> set (vmwait_check i)"
  by (auto simp: vmwait_check_def)




section \<open>The reset path: what it leaves\<close>

lemma reset_connection_Inr:
  assumes "reset_connection d options s = (evs, Inr s')"
  shows "\<exists>ev. evs = ev @ [DbgUndoDebuggerSuspensions] \<and> DbgUndoDebuggerSuspensions \<notin> set ev"
    and "debugThreadId s' = debugThreadId s" and "eventThreadId s' = eventThreadId s"
    and "eventList s' = []" and "\<not> ddmActive s'"
    and "run s' \<longleftrightarrow> server options \<and> run s"
    and "d \<longrightarrow> eventThreadId s' = 0"
  using assms
  by (auto simp: reset_connection_def ResetState_def UnregisterAll_def Let_def
      split: if_splits)


section \<open>The outer loop: where it broadcasts\<close>

text \<open>The six ways one pass of the outer loop can go.\<close>

lemma Run_loop_Cons_cases:
  assumes "Run_loop d options (c # cs) s = (t, r)"
  obtains
    (stopped) "\<not> run s" "t = []" "r = Exited s"
  | (accept_failed) "run s" "server options" "t = [TransportAccept s False]"
      "r = Exited (connect_effect c s)"
  | (establish_failed) "run s" "\<not> server options"
      "t = [TransportEstablish s False, Lock attach_lock] @ Broadcast attach_cond # [Unlock attach_lock]"
      "r = Exited (connect_effect c s)"
  | (in_loop) ev_q s2 where "run s"
      "request_loop True (iterations c) (connect_effect c s) = (ev_q, In_loop s2)"
      "t = [if server options then TransportAccept s True else TransportEstablish s True,
            DbgConnected] @ ev_q"
      "r = Unfinished s2"
  | (aborted) ev_q s2 ev_r f where "run s"
      "request_loop True (iterations c) (connect_effect c s) = (ev_q, Left_loop s2)"
      "reset_connection d options s2 = (ev_r, Inl f)"
      "t = [if server options then TransportAccept s True else TransportEstablish s True,
            DbgConnected] @ ev_q @ ev_r"
      "r = Aborted f"
  | (again) ev_q s2 ev_r s3 rest where "run s"
      "request_loop True (iterations c) (connect_effect c s) = (ev_q, Left_loop s2)"
      "reset_connection d options s2 = (ev_r, Inr s3)"
      "Run_loop d options cs s3 = (rest, r)"
      "t = [if server options then TransportAccept s True else TransportEstablish s True,
            DbgConnected] @ ev_q @ ev_r @ rest"
proof (cases "run s")
  case False
  with assms stopped show ?thesis by simp
next
  case run: True
  show ?thesis
  proof (cases "connect_ok c")
    case False
    with run assms accept_failed establish_failed show ?thesis
      by (cases "server options") simp_all
  next
    case ok: True
    obtain ev_q lr where q: "request_loop True (iterations c) (connect_effect c s) = (ev_q, lr)"
      by (cases "request_loop True (iterations c) (connect_effect c s)")
    show ?thesis
    proof (cases lr)
      case (In_loop s2)
      with run ok q assms in_loop [of ev_q s2] show ?thesis by simp
    next
      case (Left_loop s2)
      obtain ev_r rr where rr: "reset_connection d options s2 = (ev_r, rr)"
        by (cases "reset_connection d options s2")
      show ?thesis
      proof (cases rr)
        case (Inl f)
        with run ok q Left_loop rr assms aborted [of ev_q s2 ev_r f] show ?thesis by simp
      next
        case (Inr s3)
        obtain rest r' where rest: "Run_loop d options cs s3 = (rest, r')"
          by (cases "Run_loop d options cs s3")
        with run ok q Left_loop rr Inr assms again [of ev_q s2 ev_r s3 rest] show ?thesis by simp
      qed
    qed
  qed
qed










section \<open>The whole thread\<close>

text \<open>The trace of \<open>Run\<close> is the start-up events, the trace of the outer loop and, when
  the loop was left, the two closing events.\<close>

lemma occurs_middle:
  assumes "x \<notin> set as" "x \<notin> set cs" "as @ bs @ cs = pre @ x # post"
  shows "\<exists>p q. pre = as @ p \<and> bs = p @ x # q \<and> post = q @ cs"
proof -
  from occurs_right [OF assms(1,3)] obtain p where p: "pre = as @ p" "bs @ cs = p @ x # post"
    by blast
  from occurs_left [OF assms(2) p(2)] obtain q where "bs = p @ x # q" "post = q @ cs"
    by blast
  with p(1) show ?thesis by blast
qed

lemma Run_shape:
  assumes "Run d options script s = (t, r)"
  obtains tl where
    "Run_loop d options script (s\<lparr>run := True, debug_thread_started := True\<rparr>) = (tl, r)"
    "t = [AttachCurrentThread, Lock thread_start_lock, Broadcast thread_start_cond,
          Unlock thread_start_lock, DbgThreadWaiting] @ tl @
         (case r of Exited s' \<Rightarrow> [DbgThreadRunning, DetachCurrentThread] | _ \<Rightarrow> [])"
proof -
  obtain tl rl where l: "Run_loop d options script (s\<lparr>run := True, debug_thread_started := True\<rparr>) = (tl, rl)"
    by (cases "Run_loop d options script (s\<lparr>run := True, debug_thread_started := True\<rparr>)")
  with assms have "r = rl \<and> t = [AttachCurrentThread, Lock thread_start_lock, Broadcast thread_start_cond,
          Unlock thread_start_lock, DbgThreadWaiting] @ tl @
         (case r of Exited s' \<Rightarrow> [DbgThreadRunning, DetachCurrentThread] | _ \<Rightarrow> [])"
    by (cases rl) (auto simp: Run_def)
  with l that show ?thesis by blast
qed

lemma Run_occurs:
  assumes "Run d options script s = (t, r)" "t = pre @ x # post"
    and x: "x \<notin> set [AttachCurrentThread, Lock thread_start_lock, Broadcast thread_start_cond,
          Unlock thread_start_lock, DbgThreadWaiting]" "x \<noteq> DbgThreadRunning" "x \<noteq> DetachCurrentThread"
  obtains tl p q where
    "Run_loop d options script (s\<lparr>run := True, debug_thread_started := True\<rparr>) = (tl, r)"
    "tl = p @ x # q"
    "pre = [AttachCurrentThread, Lock thread_start_lock, Broadcast thread_start_cond,
          Unlock thread_start_lock, DbgThreadWaiting] @ p"
    "post = q @ (case r of Exited s' \<Rightarrow> [DbgThreadRunning, DetachCurrentThread] | _ \<Rightarrow> [])"
proof -
  from assms(1) obtain tl where tl:
    "Run_loop d options script (s\<lparr>run := True, debug_thread_started := True\<rparr>) = (tl, r)"
    "t = [AttachCurrentThread, Lock thread_start_lock, Broadcast thread_start_cond,
          Unlock thread_start_lock, DbgThreadWaiting] @ tl @
         (case r of Exited s' \<Rightarrow> [DbgThreadRunning, DetachCurrentThread] | _ \<Rightarrow> [])"
    by (rule Run_shape)
  note a = x(1)
  have c: "x \<notin> set (case r of Exited s' \<Rightarrow> [DbgThreadRunning, DetachCurrentThread] | _ \<Rightarrow> [])"
    using x by (cases r) auto
  have "[AttachCurrentThread, Lock thread_start_lock, Broadcast thread_start_cond,
          Unlock thread_start_lock, DbgThreadWaiting] @ tl @
         (case r of Exited s' \<Rightarrow> [DbgThreadRunning, DetachCurrentThread] | _ \<Rightarrow> [])
         = pre @ x # post"
    using tl(2) assms(2) by simp
  from occurs_middle [OF a c this] tl(1) that show ?thesis by blast
qed



section \<open>After the reset path\<close>






section \<open>The thread id that an accept finds\<close>

text \<open>The request loop leaves in \<open>debugThreadId\<close> the id that its last
  \<open>Dbg::GetThreadSelfId\<close> returned, the reset path reads no id, and so each \<open>accept\<close> of the
  outer loop begins with the id last read.\<close>

lemma last_self_id_append:
  "last_self_id v (as @ bs) = last_self_id (last_self_id v as) bs"
  by (simp add: last_self_id_def)

lemma last_self_id_Nil: "last_self_id v [] = v"
  by (simp add: last_self_id_def)

lemma last_self_id_Cons: "last_self_id v (e # es) = last_self_id (self_id_after v e) es"
  by (simp add: last_self_id_def)

lemmas last_self_id_simps = last_self_id_Nil last_self_id_Cons last_self_id_append

lemma last_self_id_unrecorded:
  "(\<And>e w. e \<in> set es \<Longrightarrow> self_id_after w e = w) \<Longrightarrow> last_self_id v es = v"
  by (induction es arbitrary: v) (simp_all add: last_self_id_def)

lemma self_id_after_reset_event: "reset_event e \<Longrightarrow> self_id_after w e = w"
  by (cases e) (simp_all add: self_id_after_def)

lemma last_self_id_vmwait_check [simp]: "last_self_id v (vmwait_check i) = v"
  by (simp add: vmwait_check_def last_self_id_simps self_id_after_def)

lemma last_self_id_reset_connection:
  assumes "reset_connection d options s = (evs, r)"
  shows "last_self_id v evs = v"
  using reset_connection_events [OF assms] self_id_after_reset_event
  by (intro last_self_id_unrecorded) blast

lemma request_loop_debugThreadId:
  assumes "request_loop first its s = (evs, lr)"
    and "\<And>i s. i \<in> set its \<Longrightarrow> debugThreadId (incoming_effect i s) = debugThreadId s"
    and "lr = Left_loop s' \<or> lr = In_loop s'"
  shows "debugThreadId s' = last_self_id (debugThreadId s) evs"
  using assms
proof (induction its arbitrary: first s evs)
  case Nil
  then show ?case by (auto simp: last_self_id_simps)
next
  case (Cons i its)
  have keep: "debugThreadId (incoming_effect i s) = debugThreadId s" for s
    using Cons.prems(2) by simp
  have keeps: "\<And>j s. j \<in> set its \<Longrightarrow> debugThreadId (incoming_effect j s) = debugThreadId s"
    using Cons.prems(2) by simp
  from Cons.prems(1) show ?case
  proof (cases rule: request_loop_Cons_cases)
    case disposed
    with Cons.prems(3) show ?thesis
      by (auto simp: last_self_id_simps self_id_after_def)
  next
    case dropped
    have "last_self_id (debugThreadId s) evs = debugThreadId s"
      unfolding dropped(1) by (simp add: last_self_id_simps self_id_after_def)
    with dropped(2) Cons.prems(3) keep show ?thesis by auto
  next
    case (handshake evs')
    have ih: "debugThreadId s' = last_self_id (self_id i) evs'"
      using Cons.IH [OF handshake(3) keeps Cons.prems(3)] by simp
    have "last_self_id (debugThreadId s) evs = last_self_id (self_id i) evs'"
      unfolding handshake(2) by (simp add: last_self_id_simps self_id_after_def)
    with ih show ?thesis by simp
  next
    case (continue evs')
    have ih: "debugThreadId s' = last_self_id (debugThreadId s) evs'"
      using Cons.IH [OF continue(2) keeps Cons.prems(3)] keep by simp
    have "last_self_id (debugThreadId s) evs = last_self_id (debugThreadId s) evs'"
      unfolding continue(1) by (simp add: last_self_id_simps self_id_after_def)
    with ih show ?thesis by simp
  qed
qed

lemma leaves_debugThreadId_Cons:
  "leaves_debugThreadId (c # cs) \<longleftrightarrow>
     (\<forall>s. debugThreadId (connect_effect c s) = debugThreadId s) \<and>
     (\<forall>i \<in> set (iterations c). \<forall>s. debugThreadId (incoming_effect i s) = debugThreadId s) \<and>
     leaves_debugThreadId cs"
  by (auto simp: leaves_debugThreadId_def)

lemma Run_loop_accept_debugThreadId:
  assumes "Run_loop d options cs s = (t, r)" "leaves_debugThreadId cs"
    "t = pre @ TransportAccept sa b # post"
  shows "debugThreadId sa = last_self_id (debugThreadId s) pre"
  using assms
proof (induction cs arbitrary: s t pre)
  case Nil
  then show ?case by (auto split: if_splits)
next
  case (Cons c cs)
  let ?ce = "if server options then TransportAccept s True else TransportEstablish s True"
  let ?x = "TransportAccept sa b"
  have l: "\<And>s. debugThreadId (connect_effect c s) = debugThreadId s"
      "\<And>i s. i \<in> set (iterations c) \<Longrightarrow> debugThreadId (incoming_effect i s) = debugThreadId s"
      "leaves_debugThreadId cs"
    using Cons.prems(2) by (simp_all add: leaves_debugThreadId_Cons)
  have first: "debugThreadId sa = last_self_id (debugThreadId s) pre"
    if "[?ce] = pre @ ?x # q" for q
  proof -
    from that have "pre = [] \<and> ?x = ?ce"
      by (simp add: Cons_eq_append_conv)
    then show ?thesis
      by (auto simp: last_self_id_simps split: if_splits)
  qed
  have inside: "debugThreadId sa = last_self_id (debugThreadId s) pre"
    if q: "request_loop True (iterations c) (connect_effect c s) = (ev_q, lr)"
      and r: "\<And>e. e \<in> set ev_r \<Longrightarrow> reset_event e"
      and t: "t = [?ce, DbgConnected] @ ev_q @ ev_r" for ev_q lr ev_r
  proof -
    have n: "?x \<notin> set (DbgConnected # ev_q @ ev_r)"
      using request_loop_events [OF q, of ?x] r [of ?x] by auto
    have "[?ce] @ (DbgConnected # ev_q @ ev_r) = pre @ ?x # post"
      using t Cons.prems(3) by simp
    from occurs_left [OF n this] obtain q' where "[?ce] = pre @ ?x # q'"
      by blast
    then show ?thesis by (rule first)
  qed
  from Cons.prems(1) show ?case
  proof (cases rule: Run_loop_Cons_cases)
    case stopped
    with Cons.prems(3) show ?thesis by simp
  next
    case accept_failed
    with Cons.prems(3) have "pre = [] \<and> sa = s"
      by (simp add: Cons_eq_append_conv)
    then show ?thesis by (simp add: last_self_id_simps)
  next
    case establish_failed
    have "?x \<notin> set t" using establish_failed(3) by simp
    with Cons.prems(3) show ?thesis by simp
  next
    case (in_loop ev_q s2)
    from inside [OF in_loop(2), of "[]"] in_loop(3) show ?thesis by simp
  next
    case (aborted ev_q s2 ev_r f)
    from inside [OF aborted(2) reset_connection_events [OF aborted(3)]] aborted(4)
    show ?thesis by simp
  next
    case (again ev_q s2 ev_r s3 rest)
    have n: "?x \<notin> set (DbgConnected # ev_q @ ev_r)"
      using request_loop_events [OF again(2), of ?x] reset_connection_events [OF again(3), of ?x]
      by auto
    have "[?ce] @ ((DbgConnected # ev_q @ ev_r) @ rest) = pre @ ?x # post"
      using again(5) Cons.prems(3) by simp
    from occurs_either [OF this] show ?thesis
    proof
      assume "\<exists>q. [?ce] = pre @ ?x # q \<and> post = q @ (DbgConnected # ev_q @ ev_r) @ rest"
      then obtain q where "[?ce] = pre @ ?x # q" by blast
      then show ?thesis by (rule first)
    next
      assume "\<exists>p. pre = [?ce] @ p \<and> (DbgConnected # ev_q @ ev_r) @ rest = p @ ?x # post"
      then obtain p1 where p1: "pre = [?ce] @ p1"
          "(DbgConnected # ev_q @ ev_r) @ rest = p1 @ ?x # post"
        by blast
      from occurs_right [OF n p1(2)] obtain p where
        p: "p1 = (DbgConnected # ev_q @ ev_r) @ p" "rest = p @ ?x # post"
        by blast
      have ih: "debugThreadId sa = last_self_id (debugThreadId s3) p"
        by (rule Cons.IH [OF again(4) l(3) p(2)])
      have "debugThreadId s2 = last_self_id (debugThreadId (connect_effect c s)) ev_q"
        by (rule request_loop_debugThreadId [OF again(2) l(2)]) simp_all
      then have s3: "debugThreadId s3 = last_self_id (debugThreadId s) ev_q"
        using reset_connection_Inr(2) [OF again(3)] l(1) by simp
      have "last_self_id (debugThreadId s) pre
              = last_self_id (last_self_id (last_self_id (debugThreadId s) ev_q) ev_r) p"
        unfolding p1(1) p(1)
        by (simp add: last_self_id_simps self_id_after_def split: if_splits)
      also have "\<dots> = last_self_id (last_self_id (debugThreadId s) ev_q) p"
        by (simp only: last_self_id_reset_connection [OF again(3)])
      finally show ?thesis using ih s3 by simp
    qed
  qed
qed

lemma Run_loop_server_head:
  assumes "server options" "run s"
  shows "\<exists>rest. fst (Run_loop d options (c # cs) s) = TransportAccept s (connect_ok c) # rest"
  using assms by (auto split: prod.splits loop_result.splits sum.splits)

lemma Run_loop_pass:
  assumes "run s" "connect_ok c"
    "request_loop True (iterations c) (connect_effect c s) = (ev_q, Left_loop s1)"
    "reset_connection d options s1 = (ev_r, Inr s2)"
  shows "fst (Run_loop d options (c # cs) s) =
           (if server options then TransportAccept s True else TransportEstablish s True) #
           DbgConnected # ev_q @ ev_r @ fst (Run_loop d options cs s2)"
  using assms by (auto split: prod.splits)

section \<open>The reset path: loop back or exit\<close>



section \<open>The reset path: what the next accept finds\<close>

text \<open>Claim C2, as the code has it. The reset path, when it completes, leaves
  \<open>debugThreadId\<close> and \<open>eventThreadId\<close> as they were when the request loop was left; it
  empties the event list and clears \<open>ddmActive\<close>, and in a debug build it completes only
  when \<open>eventThreadId\<close> was zero already. In a pass of the outer loop in server mode in
  which the request loop is left and the reset path completes with the run flag set, the
  next \<open>accept\<close> begins with exactly the session the reset path left. And in every trace
  of the thread whose surroundings leave \<open>debugThreadId\<close> alone, each \<open>accept\<close> begins
  with the id that the last \<open>Dbg::GetThreadSelfId\<close> before it returned, or with the id the
  thread started with when there was none: nothing but a completed handshake writes it.\<close>

theorem reset_path_keeps_thread_ids:
  "(reset_connection d options s1 = (evs, Inr s2) \<longrightarrow>
      debugThreadId s2 = debugThreadId s1 \<and> eventThreadId s2 = eventThreadId s1 \<and>
      eventList s2 = [] \<and> \<not> ddmActive s2 \<and> (d \<longrightarrow> eventThreadId s2 = 0)) \<and>
   (server options \<and> run s \<and> connect_ok c \<and>
    request_loop True (iterations c) (connect_effect c s) = (ev_q, Left_loop s1) \<and>
    reset_connection d options s1 = (evs, Inr s2) \<and> run s2 \<longrightarrow>
      (\<exists>rest. fst (Run_loop d options (c # c' # cs) s) =
         TransportAccept s True # DbgConnected # ev_q @ evs @
         TransportAccept s2 (connect_ok c') # rest)) \<and>
   (Run d options script s0 = (t, r) \<and> leaves_debugThreadId script \<and>
    t = pre @ TransportAccept sa b # post \<longrightarrow>
      debugThreadId sa = last_self_id (debugThreadId s0) pre)"
proof (intro conjI impI)
  assume a: "reset_connection d options s1 = (evs, Inr s2)"
  show "debugThreadId s2 = debugThreadId s1" "eventThreadId s2 = eventThreadId s1"
    "eventList s2 = []" "\<not> ddmActive s2"
    by (rule reset_connection_Inr [OF a])+
  assume d
  with reset_connection_Inr(7) [OF a] show "eventThreadId s2 = 0" by simp
next
  assume h: "server options \<and> run s \<and> connect_ok c \<and>
    request_loop True (iterations c) (connect_effect c s) = (ev_q, Left_loop s1) \<and>
    reset_connection d options s1 = (evs, Inr s2) \<and> run s2"
  then have "fst (Run_loop d options (c # c' # cs) s) =
           TransportAccept s True # DbgConnected # ev_q @ evs @ fst (Run_loop d options (c' # cs) s2)"
    using Run_loop_pass [of s c ev_q s1 d options evs s2 "c' # cs"] by simp
  moreover from h obtain rest where
    "fst (Run_loop d options (c' # cs) s2) = TransportAccept s2 (connect_ok c') # rest"
    using Run_loop_server_head [of options s2 d c' cs] by blast
  ultimately show "\<exists>rest. fst (Run_loop d options (c # c' # cs) s) =
         TransportAccept s True # DbgConnected # ev_q @ evs @
         TransportAccept s2 (connect_ok c') # rest"
    by simp
next
  assume "Run d options script s0 = (t, r) \<and> leaves_debugThreadId script \<and>
    t = pre @ TransportAccept sa b # post"
  then have run: "Run d options script s0 = (t, r)" and l: "leaves_debugThreadId script"
    and t: "t = pre @ TransportAccept sa b # post"
    by simp_all
  from run t obtain tl p q where tl:
      "Run_loop d options script (s0\<lparr>run := True, debug_thread_started := True\<rparr>) = (tl, r)"
      "tl = p @ TransportAccept sa b # q"
      "pre = [AttachCurrentThread, Lock thread_start_lock, Broadcast thread_start_cond,
          Unlock thread_start_lock, DbgThreadWaiting] @ p"
    by (rule Run_occurs) simp_all
  from Run_loop_accept_debugThreadId [OF tl(1) l tl(2)]
  have "debugThreadId sa = last_self_id (debugThreadId s0) p" by simp
  moreover have "last_self_id (debugThreadId s0) pre = last_self_id (debugThreadId s0) p"
    unfolding tl(3) by (simp add: last_self_id_simps self_id_after_def)
  ultimately show "debugThreadId sa = last_self_id (debugThreadId s0) pre" by simp
qed

text \<open>Witness for C2: the reset path on a session left in the middle of an event, in a
  release build; the pass of the outer loop that leads to it and the \<open>accept\<close> that
  follows; and a server-mode thread whose second \<open>accept\<close> finds the id of the first
  handshake.\<close>

theorem reset_path_keeps_thread_ids_witness:
  "reset_connection False server_options mid_event =
     ([TransportClose, DbgThreadRunning, DbgDdmDisconnected, DbgThreadWaiting,
       UnregisterAllCalled, LogWarning ''Resetting state while event in progress'',
       DbgDisconnected, DbgUndoDebuggerSuspensions], Inr after_mid_event) \<and>
   debugThreadId after_mid_event = debugThreadId mid_event \<and>
   eventThreadId after_mid_event = eventThreadId mid_event \<and>
   debugThreadId mid_event = 7 \<and> eventThreadId mid_event = 5 \<and>
   eventList after_mid_event = [] \<and> \<not> ddmActive after_mid_event \<and>
   server server_options \<and> run running \<and> connect_ok interrupted \<and> run after_mid_event \<and>
   request_loop True (iterations interrupted) (connect_effect interrupted running) =
     ([DbgIsDisposed False, ThreadStateIsVmWait True, TransportProcessIncoming True,
       TransportAwaitingHandshake False, DbgGetThreadSelfId 7,
       Lock attach_lock, Broadcast attach_cond, Unlock attach_lock,
       DbgIsDisposed False, ThreadStateIsVmWait True, TransportProcessIncoming False], Left_loop mid_event) \<and>
   fst (Run_loop False server_options [interrupted, refused] running) =
     TransportAccept running True # DbgConnected #
     [DbgIsDisposed False, ThreadStateIsVmWait True, TransportProcessIncoming True,
       TransportAwaitingHandshake False, DbgGetThreadSelfId 7,
       Lock attach_lock, Broadcast attach_cond, Unlock attach_lock,
       DbgIsDisposed False, ThreadStateIsVmWait True, TransportProcessIncoming False] @
     [TransportClose, DbgThreadRunning, DbgDdmDisconnected, DbgThreadWaiting,
       UnregisterAllCalled, LogWarning ''Resetting state while event in progress'',
       DbgDisconnected, DbgUndoDebuggerSuspensions] @
     [TransportAccept after_mid_event False] \<and>
   Run False server_options [session, refused] JdwpState_new =
     ([AttachCurrentThread, Lock thread_start_lock, Broadcast thread_start_cond,
       Unlock thread_start_lock, DbgThreadWaiting,
       TransportAccept running True, DbgConnected,
       DbgIsDisposed False, ThreadStateIsVmWait True, TransportProcessIncoming True,
       TransportAwaitingHandshake True,
       DbgIsDisposed False, ThreadStateIsVmWait True, TransportProcessIncoming True,
       TransportAwaitingHandshake False, DbgGetThreadSelfId 7,
       Lock attach_lock, Broadcast attach_cond, Unlock attach_lock,
       DbgIsDisposed False, ThreadStateIsVmWait True, TransportProcessIncoming True,
       DbgIsDisposed False, ThreadStateIsVmWait True, TransportProcessIncoming False,
       TransportClose, UnregisterAllCalled, DbgDisconnected, DbgUndoDebuggerSuspensions] @
      TransportAccept attached False # [DbgThreadRunning, DetachCurrentThread], Exited attached) \<and>
   leaves_debugThreadId [session, refused] \<and>
   last_self_id (debugThreadId JdwpState_new)
     [AttachCurrentThread, Lock thread_start_lock, Broadcast thread_start_cond,
       Unlock thread_start_lock, DbgThreadWaiting,
       TransportAccept running True, DbgConnected,
       DbgIsDisposed False, ThreadStateIsVmWait True, TransportProcessIncoming True,
       TransportAwaitingHandshake True,
       DbgIsDisposed False, ThreadStateIsVmWait True, TransportProcessIncoming True,
       TransportAwaitingHandshake False, DbgGetThreadSelfId 7,
       Lock attach_lock, Broadcast attach_cond, Unlock attach_lock,
       DbgIsDisposed False, ThreadStateIsVmWait True, TransportProcessIncoming True,
       DbgIsDisposed False, ThreadStateIsVmWait True, TransportProcessIncoming False,
       TransportClose, UnregisterAllCalled, DbgDisconnected, DbgUndoDebuggerSuspensions] = 7 \<and>
   debugThreadId attached = 7"
proof -
  have v1: "reset_connection False server_options mid_event =
     ([TransportClose, DbgThreadRunning, DbgDdmDisconnected, DbgThreadWaiting,
       UnregisterAllCalled, LogWarning ''Resetting state while event in progress'',
       DbgDisconnected, DbgUndoDebuggerSuspensions], Inr after_mid_event)"
    by (simp add: Run_def server_options_def client_options_def refused_def session_def interrupted_def
        packet_def dropped_def dropped_mid_event_def running_def attached_def mid_event_def
        after_mid_event_def JdwpState_new_def vmwait_check_def reset_connection_def
        ResetState_def UnregisterAll_def)
  have v2: "request_loop True (iterations interrupted) (connect_effect interrupted running) =
     ([DbgIsDisposed False, ThreadStateIsVmWait True, TransportProcessIncoming True,
       TransportAwaitingHandshake False, DbgGetThreadSelfId 7,
       Lock attach_lock, Broadcast attach_cond, Unlock attach_lock,
       DbgIsDisposed False, ThreadStateIsVmWait True, TransportProcessIncoming False], Left_loop mid_event)"
    by (simp add: Run_def server_options_def client_options_def refused_def session_def interrupted_def
        packet_def dropped_def dropped_mid_event_def running_def attached_def mid_event_def
        after_mid_event_def JdwpState_new_def vmwait_check_def reset_connection_def
        ResetState_def UnregisterAll_def)
  have v3: "fst (Run_loop False server_options [interrupted, refused] running) =
     TransportAccept running True # DbgConnected #
     [DbgIsDisposed False, ThreadStateIsVmWait True, TransportProcessIncoming True,
       TransportAwaitingHandshake False, DbgGetThreadSelfId 7,
       Lock attach_lock, Broadcast attach_cond, Unlock attach_lock,
       DbgIsDisposed False, ThreadStateIsVmWait True, TransportProcessIncoming False] @
     [TransportClose, DbgThreadRunning, DbgDdmDisconnected, DbgThreadWaiting,
       UnregisterAllCalled, LogWarning ''Resetting state while event in progress'',
       DbgDisconnected, DbgUndoDebuggerSuspensions] @
     [TransportAccept after_mid_event False]"
    by (simp add: Run_def server_options_def client_options_def refused_def session_def interrupted_def
        packet_def dropped_def dropped_mid_event_def running_def attached_def mid_event_def
        after_mid_event_def JdwpState_new_def vmwait_check_def reset_connection_def
        ResetState_def UnregisterAll_def)
  have v4: "Run False server_options [session, refused] JdwpState_new =
     ([AttachCurrentThread, Lock thread_start_lock, Broadcast thread_start_cond,
       Unlock thread_start_lock, DbgThreadWaiting,
       TransportAccept running True, DbgConnected,
       DbgIsDisposed False, ThreadStateIsVmWait True, TransportProcessIncoming True,
       TransportAwaitingHandshake True,
       DbgIsDisposed False, ThreadStateIsVmWait True, TransportProcessIncoming True,
       TransportAwaitingHandshake False, DbgGetThreadSelfId 7,
       Lock attach_lock, Broadcast attach_cond, Unlock attach_lock,
       DbgIsDisposed False, ThreadStateIsVmWait True, TransportProcessIncoming True,
       DbgIsDisposed False, ThreadStateIsVmWait True, TransportProcessIncoming False,
       TransportClose, UnregisterAllCalled, DbgDisconnected, DbgUndoDebuggerSuspensions] @
      TransportAccept attached False # [DbgThreadRunning, DetachCurrentThread], Exited attached)"
    by (simp add: Run_def server_options_def client_options_def refused_def session_def interrupted_def
        packet_def dropped_def dropped_mid_event_def running_def attached_def mid_event_def
        after_mid_event_def JdwpState_new_def vmwait_check_def reset_connection_def
        ResetState_def UnregisterAll_def)
  have h: "server server_options" "run running" "connect_ok interrupted" "run after_mid_event"
      "debugThreadId mid_event = 7" "eventThreadId mid_event = 5"
    by (simp_all add: server_options_def running_def interrupted_def after_mid_event_def
        mid_event_def JdwpState_new_def)
  have l: "leaves_debugThreadId [session, refused]"
    by (simp add: leaves_debugThreadId_def session_def refused_def packet_def dropped_def)
  have n: "last_self_id (debugThreadId JdwpState_new)
     [AttachCurrentThread, Lock thread_start_lock, Broadcast thread_start_cond,
       Unlock thread_start_lock, DbgThreadWaiting,
       TransportAccept running True, DbgConnected,
       DbgIsDisposed False, ThreadStateIsVmWait True, TransportProcessIncoming True,
       TransportAwaitingHandshake True,
       DbgIsDisposed False, ThreadStateIsVmWait True, TransportProcessIncoming True,
       TransportAwaitingHandshake False, DbgGetThreadSelfId 7,
       Lock attach_lock, Broadcast attach_cond, Unlock attach_lock,
       DbgIsDisposed False, ThreadStateIsVmWait True, TransportProcessIncoming True,
       DbgIsDisposed False, ThreadStateIsVmWait True, TransportProcessIncoming False,
       TransportClose, UnregisterAllCalled, DbgDisconnected, DbgUndoDebuggerSuspensions] = 7"
    by (simp add: last_self_id_def self_id_after_def)
  have a: "debugThreadId after_mid_event = debugThreadId mid_event \<and>
      eventThreadId after_mid_event = eventThreadId mid_event \<and>
      eventList after_mid_event = [] \<and> \<not> ddmActive after_mid_event"
    using reset_path_keeps_thread_ids [of False server_options mid_event _ after_mid_event] v1
    by blast
  have "\<exists>rest. fst (Run_loop False server_options [interrupted, refused] running) =
         TransportAccept running True # DbgConnected #
         [DbgIsDisposed False, ThreadStateIsVmWait True, TransportProcessIncoming True,
       TransportAwaitingHandshake False, DbgGetThreadSelfId 7,
       Lock attach_lock, Broadcast attach_cond, Unlock attach_lock,
       DbgIsDisposed False, ThreadStateIsVmWait True, TransportProcessIncoming False] @
         [TransportClose, DbgThreadRunning, DbgDdmDisconnected, DbgThreadWaiting,
       UnregisterAllCalled, LogWarning ''Resetting state while event in progress'',
       DbgDisconnected, DbgUndoDebuggerSuspensions] @
         TransportAccept after_mid_event (connect_ok refused) # rest"
    using reset_path_keeps_thread_ids [of False server_options mid_event _ after_mid_event
        running interrupted _ refused "[]"] v1 v2 h(1-4)
    by blast
  have "debugThreadId attached = last_self_id (debugThreadId JdwpState_new)
     [AttachCurrentThread, Lock thread_start_lock, Broadcast thread_start_cond,
       Unlock thread_start_lock, DbgThreadWaiting,
       TransportAccept running True, DbgConnected,
       DbgIsDisposed False, ThreadStateIsVmWait True, TransportProcessIncoming True,
       TransportAwaitingHandshake True,
       DbgIsDisposed False, ThreadStateIsVmWait True, TransportProcessIncoming True,
       TransportAwaitingHandshake False, DbgGetThreadSelfId 7,
       Lock attach_lock, Broadcast attach_cond, Unlock attach_lock,
       DbgIsDisposed False, ThreadStateIsVmWait True, TransportProcessIncoming True,
       DbgIsDisposed False, ThreadStateIsVmWait True, TransportProcessIncoming False,
       TransportClose, UnregisterAllCalled, DbgDisconnected, DbgUndoDebuggerSuspensions]"
    using reset_path_keeps_thread_ids [of False server_options _ _ _ _ _ _ _ _
        "[session, refused]" JdwpState_new _ _ _ attached False "[DbgThreadRunning, DetachCurrentThread]"]
      v4 l
    by blast
  with n have b: "debugThreadId attached = 7" by simp
  from v1 v2 v3 v4 h l n a b show ?thesis by blast
qed

text \<open>Counterexample for C2 as stated: in server mode, after a debugger
  has completed the handshake and gone, the second \<open>accept\<close> begins with \<open>debugThreadId\<close>
  still 7; and when the debugger goes in the middle of an event (release build), also with
  \<open>eventThreadId\<close> still 5.\<close>

theorem reset_keeps_thread_ids_counterexample:
  "Run False server_options [session, refused] JdwpState_new =
     ([AttachCurrentThread, Lock thread_start_lock, Broadcast thread_start_cond,
       Unlock thread_start_lock, DbgThreadWaiting,
       TransportAccept running True, DbgConnected,
       DbgIsDisposed False, ThreadStateIsVmWait True, TransportProcessIncoming True,
       TransportAwaitingHandshake True,
       DbgIsDisposed False, ThreadStateIsVmWait True, TransportProcessIncoming True,
       TransportAwaitingHandshake False, DbgGetThreadSelfId 7,
       Lock attach_lock, Broadcast attach_cond, Unlock attach_lock,
       DbgIsDisposed False, ThreadStateIsVmWait True, TransportProcessIncoming True,
       DbgIsDisposed False, ThreadStateIsVmWait True, TransportProcessIncoming False,
       TransportClose, UnregisterAllCalled, DbgDisconnected] @ DbgUndoDebuggerSuspensions #
      TransportAccept attached False # [DbgThreadRunning, DetachCurrentThread], Exited attached) \<and>
   debugThreadId attached = 7 \<and>
   Run False server_options [interrupted, refused] JdwpState_new =
     ([AttachCurrentThread, Lock thread_start_lock, Broadcast thread_start_cond,
       Unlock thread_start_lock, DbgThreadWaiting,
       TransportAccept running True, DbgConnected,
       DbgIsDisposed False, ThreadStateIsVmWait True, TransportProcessIncoming True,
       TransportAwaitingHandshake False, DbgGetThreadSelfId 7,
       Lock attach_lock, Broadcast attach_cond, Unlock attach_lock,
       DbgIsDisposed False, ThreadStateIsVmWait True, TransportProcessIncoming False,
       TransportClose, DbgThreadRunning, DbgDdmDisconnected, DbgThreadWaiting,
       UnregisterAllCalled, LogWarning ''Resetting state while event in progress'',
       DbgDisconnected] @ DbgUndoDebuggerSuspensions #
      TransportAccept after_mid_event False # [DbgThreadRunning, DetachCurrentThread],
      Exited after_mid_event) \<and>
   debugThreadId after_mid_event = 7 \<and> eventThreadId after_mid_event = 5"
  by (simp add: Run_def server_options_def client_options_def refused_def session_def interrupted_def
        packet_def dropped_def dropped_mid_event_def running_def attached_def mid_event_def
        after_mid_event_def JdwpState_new_def vmwait_check_def reset_connection_def
        ResetState_def UnregisterAll_def)

section \<open>The factory: suspend on attach\<close>









end
